theory Spec2Isabelle
  imports Main "HOL-Library.Word" "HOL-Library.Stream"
begin

unbundle bit_operations_syntax

section \<open>The KoHash class of zobrist-hash-class.js\<close>

text \<open>
  The class is modelled from zobrist-hash-class.js, the module the test file loads;
  unnamed/part_000 is the same code under other names (\<^verbatim>\<open>initHash\<close>,
  \<^verbatim>\<open>this.hashes\<close>).

  The module draws its keys from \<^verbatim>\<open>Math.random()\<close>. The model makes that source
  explicit: a stream holding the successive values of
  \<^verbatim>\<open>Math.floor(Math.random() * Number.MAX_SAFE_INTEGER)\<close>, integers from 0 to
  \<open>2 ^ 53 - 2\<close>; each evaluation of the expression takes the head of the stream.
  JavaScript numbers that hold integers are \<open>int\<close>; a \<^verbatim>\<open>Set\<close> of numbers is an
  \<open>int set\<close>.
\<close>

type_synonym random = "int stream"

subsection \<open>initNumbers (lines 13 to 24)\<close>

text \<open>
  The \<^verbatim>\<open>do { num = ... } while (numbers.has(num))\<close> loop of lines 17 to 19. It has no
  exit but a draw outside \<open>numbers\<close>, so it need not return: \<open>None\<close> is the run
  that never leaves the loop. A result is the accepted number and the rest of the
  random source.
\<close>

partial_function (option) draw_unique :: "random \<Rightarrow> int set \<Rightarrow> (int \<times> random) option" where
  "draw_unique rnd numbers =
     (if shd rnd \<in> numbers then draw_unique (stl rnd) numbers
      else Some (shd rnd, stl rnd))"

text \<open>
  The \<^verbatim>\<open>for (let val=1; val <= quantity; val++)\<close> loop, by the number of iterations
  left: each one draws a number, adds it to the set and pushes it on \<open>newNumbers\<close>.
\<close>

fun initLoop :: "nat \<Rightarrow> random \<Rightarrow> int set \<Rightarrow> int list \<Rightarrow> (int list \<times> int set \<times> random) option" where
  "initLoop 0 rnd numbers newNumbers = Some (newNumbers, numbers, rnd)"
| "initLoop (Suc n) rnd numbers newNumbers =
     (case draw_unique rnd numbers of
        None \<Rightarrow> None
      | Some (num, rnd') \<Rightarrow> initLoop n rnd' (insert num numbers) (newNumbers @ [num]))"

text \<open>
  \<open>initNumbers\<close> returns the new array; the set it mutates and the random source it
  consumed are returned with it. The loop runs \<open>quantity\<close> times, and not at all when
  \<open>quantity < 1\<close>. The array starts as the literal \<^verbatim>\<open>[0]\<close>, which is not added to
  the set.
\<close>

definition initNumbers :: "random \<Rightarrow> int set \<Rightarrow> int \<Rightarrow> (int list \<times> int set \<times> random) option" where
  "initNumbers rnd numbers quantity = initLoop (nat quantity) rnd numbers [0]"

subsection \<open>The constructor (lines 35 to 64)\<close>

record KoHash =
  nums :: "int list list"
  toPlay :: "int list option"
  keys :: "int set"

text \<open>
  The \<^verbatim>\<open>for (let vertex=0; vertex < size; vertex++)\<close> loop, by the number of iterations
  left; \<^verbatim>\<open>this.nums[vertex] = ...\<close> writes one past the end of the array, which
  appends.
\<close>

fun vertexLoop :: "nat \<Rightarrow> random \<Rightarrow> int set \<Rightarrow> int list list \<Rightarrow> int \<Rightarrow> (int list list \<times> int set \<times> random) option" where
  "vertexLoop 0 rnd numbers rows values = Some (rows, numbers, rnd)"
| "vertexLoop (Suc n) rnd numbers rows values =
     (case initNumbers rnd numbers values of
        None \<Rightarrow> None
      | Some (row, numbers', rnd') \<Rightarrow> vertexLoop n rnd' numbers' (rows @ [row]) values)"

text \<open>
  \<^verbatim>\<open>new KoHash(size, values, situational)\<close>, where \<open>size'\<close> stands for the source's
  \<^verbatim>\<open>size\<close>. The set of numbers starts empty; \<^verbatim>\<open>this.toPlay\<close> is assigned only when
  \<open>situational\<close> is truthy (for a number: not 0) and is \<^verbatim>\<open>undefined\<close> (\<open>None\<close>)
  otherwise. No argument is checked, and no statement throws. \<open>None\<close> is a
  construction that never returns.
\<close>

definition constructor :: "random \<Rightarrow> int \<Rightarrow> int \<Rightarrow> int \<Rightarrow> KoHash option" where
  "constructor rnd size' values situational =
     (case vertexLoop (nat size') rnd {} [] values of
        None \<Rightarrow> None
      | Some (rows, numbers, rnd') \<Rightarrow>
          if situational \<noteq> 0 then
            (case initNumbers rnd' numbers situational of
               None \<Rightarrow> None
             | Some (tp, numbers', rnd'') \<Rightarrow> Some \<lparr>nums = rows, toPlay = Some tp, keys = {}\<rparr>)
          else Some \<lparr>nums = rows, toPlay = None, keys = {}\<rparr>)"

subsection \<open>hash (lines 72 to 75)\<close>

datatype error = TypeError | Error int

text \<open>
  \<^verbatim>\<open>arr[i]\<close> for a number \<open>i\<close>: the element when \<open>i\<close> is an index of the array,
  \<^verbatim>\<open>undefined\<close> (\<open>None\<close>) otherwise.
\<close>

definition js_index :: "'a list \<Rightarrow> int \<Rightarrow> 'a option" where
  "js_index arr i = (if 0 \<le> i \<and> i < int (length arr) then Some (arr ! nat i) else None)"

text \<open>
  \<^verbatim>\<open>a ^ b\<close> on numbers: both operands go through ToInt32 (an integer is taken modulo
  \<open>2 ^ 32\<close>, \<^verbatim>\<open>undefined\<close> becomes 0), the 32-bit patterns are combined, and the result is
  read as a signed 32-bit integer.
\<close>

definition ToInt32 :: "int option \<Rightarrow> 32 word" where
  "ToInt32 v = (case v of None \<Rightarrow> 0 | Some n \<Rightarrow> word_of_int n)"

definition js_xor :: "int \<Rightarrow> int option \<Rightarrow> int" where
  "js_xor a b = sint (ToInt32 (Some a) XOR ToInt32 b)"

text \<open>
  \<^verbatim>\<open>state.reduce((hash,val,i) => hash ^ this.nums[i][val])\<close> is called without an
  initial value: on an empty array it throws a TypeError; otherwise the accumulator
  starts as \<^verbatim>\<open>state[0]\<close> itself and the callback runs from index 1. In the callback,
  \<^verbatim>\<open>this.nums[i]\<close> is \<^verbatim>\<open>undefined\<close> past the end of \<^verbatim>\<open>this.nums\<close>, and reading a
  property of \<^verbatim>\<open>undefined\<close> throws a TypeError.
\<close>

fun reduce_from :: "int list list \<Rightarrow> int \<Rightarrow> nat \<Rightarrow> int list \<Rightarrow> error + int" where
  "reduce_from table acc i [] = Inr acc"
| "reduce_from table acc i (val # rest) =
     (case js_index table (int i) of
        None \<Rightarrow> Inl TypeError
      | Some row \<Rightarrow> reduce_from table (js_xor acc (js_index row val)) (Suc i) rest)"

definition hash :: "KoHash \<Rightarrow> int list \<Rightarrow> int \<Rightarrow> error + int" where
  "hash this state to_play =
     (case state of
        [] \<Rightarrow> Inl TypeError
      | first # rest \<Rightarrow>
          (case reduce_from (nums this) first 1 rest of
             Inl e \<Rightarrow> Inl e
           | Inr h \<Rightarrow>
               (case toPlay this of
                  None \<Rightarrow> Inr h
                | Some tp \<Rightarrow> Inr (js_xor h (js_index tp to_play)))))"

subsection \<open>add and remove (lines 85 to 100)\<close>

text \<open>
  Both return their result with the object after the call. \<open>Error h\<close> is the
  \<^verbatim>\<open>Error\<close> thrown by \<open>add\<close>, whose message starts with the hash \<open>h\<close>.
\<close>

definition add :: "KoHash \<Rightarrow> int list \<Rightarrow> int \<Rightarrow> (error + int) \<times> KoHash" where
  "add this state to_play =
     (case hash this state to_play of
        Inl e \<Rightarrow> (Inl e, this)
      | Inr h \<Rightarrow>
          if h \<in> keys this then (Inl (Error h), this)
          else (Inr h, this\<lparr>keys := insert h (keys this)\<rparr>))"

definition remove_key :: "KoHash \<Rightarrow> int \<Rightarrow> bool \<times> KoHash" where
  "remove_key this key = (key \<in> keys this, this\<lparr>keys := keys this - {key}\<rparr>)"

subsection \<open>The BigInt variant of hash (class ZobristHash, README.md lines 111 to 114)\<close>

text \<open>
  The later version of the class draws 64-bit BigInt keys (\<^verbatim>\<open>randomBigInt(64)\<close>) but
  still starts every row with the Number literal \<^verbatim>\<open>[0]\<close>, and its \<open>hash\<close> has the
  same text as above. Its values are Numbers or BigInts. \<^verbatim>\<open>a ^ b\<close> works on 32 bits when
  both operands are Numbers (\<^verbatim>\<open>undefined\<close> converts to a Number), is the XOR of the
  two integers at any width when both are BigInts, and throws a TypeError when a BigInt
  meets a Number. The state is an array of Numbers, as documented.
\<close>

datatype jsval = Number int | BigInt int

definition js_xor_val :: "jsval \<Rightarrow> jsval option \<Rightarrow> error + jsval" where
  "js_xor_val a b =
     (case (a, b) of
        (Number x, None) \<Rightarrow> Inr (Number (js_xor x None))
      | (Number x, Some (Number y)) \<Rightarrow> Inr (Number (js_xor x (Some y)))
      | (BigInt x, Some (BigInt y)) \<Rightarrow> Inr (BigInt (x XOR y))
      | _ \<Rightarrow> Inl TypeError)"

record ZobristHash =
  nums_big :: "jsval list list"
  toPlay_big :: "jsval list option"
  keys_big :: "jsval set"

fun reduce_from_big :: "jsval list list \<Rightarrow> jsval \<Rightarrow> nat \<Rightarrow> int list \<Rightarrow> error + jsval" where
  "reduce_from_big table acc i [] = Inr acc"
| "reduce_from_big table acc i (val # rest) =
     (case js_index table (int i) of
        None \<Rightarrow> Inl TypeError
      | Some row \<Rightarrow>
          (case js_xor_val acc (js_index row val) of
             Inl e \<Rightarrow> Inl e
           | Inr acc' \<Rightarrow> reduce_from_big table acc' (Suc i) rest))"

definition hash_big :: "ZobristHash \<Rightarrow> int list \<Rightarrow> int \<Rightarrow> error + jsval" where
  "hash_big this state to_play =
     (case state of
        [] \<Rightarrow> Inl TypeError
      | first # rest \<Rightarrow>
          (case reduce_from_big (nums_big this) (Number first) 1 rest of
             Inl e \<Rightarrow> Inl e
           | Inr h \<Rightarrow>
               (case toPlay_big this of
                  None \<Rightarrow> Inr h
                | Some tp \<Rightarrow> js_xor_val h (js_index tp to_play))))"

section \<open>Properties\<close>

subsection \<open>The retry loop\<close>

text \<open>
  What \<open>draw_unique\<close> returns is outside the set it was given; it returns only when some
  draw is outside the set, and then it returns the first such draw.
\<close>

lemma draw_unique_fresh:
  assumes "draw_unique rnd numbers = Some y" shows "fst y \<notin> numbers"
proof (rule draw_unique.raw_induct[where P = "\<lambda>rnd numbers y. fst y \<notin> numbers", OF _ assms])
  fix f :: "random \<Rightarrow> int set \<Rightarrow> (int \<times> random) option" and rnd numbers y
  assume IH: "\<And>rnd numbers y. f rnd numbers = Some y \<Longrightarrow> fst y \<notin> numbers"
    and eq: "(if shd rnd \<in> numbers then f (stl rnd) numbers else Some (shd rnd, stl rnd)) = Some y"
  show "fst y \<notin> numbers"
  proof (cases "shd rnd \<in> numbers")
    case True
    with eq have "f (stl rnd) numbers = Some y" by simp
    then show ?thesis by (rule IH)
  next
    case False
    with eq show ?thesis by auto
  qed
qed

lemma draw_unique_accepts:
  assumes "draw_unique rnd numbers = Some y" shows "\<exists>n. rnd !! n \<notin> numbers"
proof (rule draw_unique.raw_induct[where P = "\<lambda>rnd numbers y. \<exists>n. rnd !! n \<notin> numbers", OF _ assms])
  fix f :: "random \<Rightarrow> int set \<Rightarrow> (int \<times> random) option" and rnd numbers y
  assume IH: "\<And>rnd numbers y. f rnd numbers = Some y \<Longrightarrow> \<exists>n. rnd !! n \<notin> numbers"
    and eq: "(if shd rnd \<in> numbers then f (stl rnd) numbers else Some (shd rnd, stl rnd)) = Some y"
  show "\<exists>n. rnd !! n \<notin> numbers"
  proof (cases "shd rnd \<in> numbers")
    case True
    with eq have "f (stl rnd) numbers = Some y" by simp
    then obtain n where "stl rnd !! n \<notin> numbers" using IH by blast
    then have "rnd !! Suc n \<notin> numbers" by simp
    then show ?thesis by blast
  next
    case False
    then have "rnd !! 0 \<notin> numbers" by simp
    then show ?thesis by blast
  qed
qed

lemma draw_unique_never:
  assumes "\<forall>n. rnd !! n \<in> numbers" shows "draw_unique rnd numbers = None"
proof (cases "draw_unique rnd numbers")
  case None then show ?thesis .
next
  case (Some y)
  from draw_unique_accepts[OF Some] assms show ?thesis by blast
qed

lemma draw_unique_after:
  "(\<forall>i<n. rnd !! i \<in> numbers) \<Longrightarrow> rnd !! n \<notin> numbers \<Longrightarrow>
   draw_unique rnd numbers = Some (rnd !! n, sdrop (Suc n) rnd)"
proof (induction n arbitrary: rnd)
  case 0
  then show ?case by (subst draw_unique.simps) simp
next
  case (Suc n)
  from Suc.prems(1) have hd_in: "shd rnd \<in> numbers" by (metis snth.simps(1) zero_less_Suc)
  from Suc.prems(1) have "\<forall>i<n. stl rnd !! i \<in> numbers" by (metis Suc_less_eq snth.simps(2))
  moreover from Suc.prems(2) have "stl rnd !! n \<notin> numbers" by simp
  ultimately have "draw_unique (stl rnd) numbers = Some (stl rnd !! n, sdrop (Suc n) (stl rnd))"
    by (rule Suc.IH)
  with hd_in show ?case by (subst draw_unique.simps) simp
qed

subsection \<open>The invariant of key generation\<close>

text \<open>
  Each loop extends its array by numbers that are pairwise distinct and outside the set
  it started from, and adds exactly these numbers to the set.
\<close>

lemma initLoop_inv:
  "initLoop n rnd numbers acc = Some (row, numbers', rnd') \<Longrightarrow>
   \<exists>new. row = acc @ new \<and> length new = n \<and> distinct new \<and> set new \<inter> numbers = {} \<and>
         numbers' = numbers \<union> set new"
proof (induction n arbitrary: rnd numbers acc)
  case 0
  then show ?case by simp
next
  case (Suc n)
  from Suc.prems obtain num rnd1 where d: "draw_unique rnd numbers = Some (num, rnd1)"
    and rest: "initLoop n rnd1 (insert num numbers) (acc @ [num]) = Some (row, numbers', rnd')"
    by (auto split: option.splits)
  from draw_unique_fresh[OF d] have fresh: "num \<notin> numbers" by simp
  from Suc.IH[OF rest] obtain new where new: "row = (acc @ [num]) @ new" "length new = n"
    "distinct new" "set new \<inter> insert num numbers = {}" "numbers' = insert num numbers \<union> set new"
    by blast
  have "row = acc @ (num # new)" using new(1) by simp
  moreover have "length (num # new) = Suc n" using new(2) by simp
  moreover have "distinct (num # new)" using new(3,4) by auto
  moreover have "set (num # new) \<inter> numbers = {}" using new(4) fresh by auto
  moreover have "numbers' = numbers \<union> set (num # new)" using new(5) by auto
  ultimately show ?case by blast
qed

lemma initNumbers_inv:
  assumes "initNumbers rnd numbers quantity = Some (row, numbers', rnd')"
  shows "\<exists>new. row = 0 # new \<and> length new = nat quantity \<and> distinct new \<and>
           set new \<inter> numbers = {} \<and> numbers' = numbers \<union> set new"
  using initLoop_inv[OF assms[unfolded initNumbers_def]] by simp

lemma vertexLoop_inv:
  "vertexLoop n rnd numbers rows values = Some (rows', numbers', rnd') \<Longrightarrow>
   \<exists>news. rows' = rows @ map ((#) 0) news \<and> length news = n \<and>
          (\<forall>r\<in>set news. length r = nat values) \<and> distinct (concat news) \<and>
          set (concat news) \<inter> numbers = {} \<and> numbers' = numbers \<union> set (concat news)"
proof (induction n arbitrary: rnd numbers rows)
  case 0
  then show ?case by simp
next
  case (Suc n)
  from Suc.prems obtain row numbers1 rnd1 where
    i: "initNumbers rnd numbers values = Some (row, numbers1, rnd1)"
    and rest: "vertexLoop n rnd1 numbers1 (rows @ [row]) values = Some (rows', numbers', rnd')"
    by (auto split: option.splits)
  from initNumbers_inv[OF i] obtain new where new: "row = 0 # new" "length new = nat values"
    "distinct new" "set new \<inter> numbers = {}" "numbers1 = numbers \<union> set new"
    by blast
  from Suc.IH[OF rest] obtain news where news: "rows' = (rows @ [row]) @ map ((#) 0) news"
    "length news = n" "\<forall>r\<in>set news. length r = nat values" "distinct (concat news)"
    "set (concat news) \<inter> numbers1 = {}" "numbers' = numbers1 \<union> set (concat news)"
    by blast
  have "rows' = rows @ map ((#) 0) (new # news)" using news(1) new(1) by simp
  moreover have "length (new # news) = Suc n" using news(2) by simp
  moreover have "\<forall>r\<in>set (new # news). length r = nat values" using news(3) new(2) by simp
  moreover have "distinct (concat (new # news))" using news(4,5) new(3,5) by auto
  moreover have "set (concat (new # news)) \<inter> numbers = {}" using news(5) new(4,5) by auto
  moreover have "numbers' = numbers \<union> set (concat (new # news))" using news(6) new(5) by auto
  ultimately show ?case by blast
qed

lemma constructor_inv:
  assumes "constructor rnd size' values situational = Some this"
  shows "\<exists>news tp. nums this = map ((#) 0) news \<and> length news = nat size' \<and>
           (\<forall>r\<in>set news. length r = nat values) \<and> length tp = nat situational \<and>
           toPlay this = (if situational = 0 then None else Some (0 # tp)) \<and>
           distinct (concat news @ tp) \<and> keys this = {}"
proof -
  from assms obtain rows numbers rnd1 where
    v: "vertexLoop (nat size') rnd {} [] values = Some (rows, numbers, rnd1)"
    by (auto simp: constructor_def split: option.splits)
  from vertexLoop_inv[OF v] obtain news where news: "rows = map ((#) 0) news"
    "length news = nat size'" "\<forall>r\<in>set news. length r = nat values" "distinct (concat news)"
    "numbers = set (concat news)"
    by auto
  show ?thesis
  proof (cases "situational = 0")
    case True
    with assms v have "this = \<lparr>nums = rows, toPlay = None, keys = {}\<rparr>"
      by (simp add: constructor_def)
    with news True show ?thesis by auto
  next
    case False
    with assms v obtain tp0 numbers2 rnd2 where
      t: "initNumbers rnd1 numbers situational = Some (tp0, numbers2, rnd2)"
      and obj: "this = \<lparr>nums = rows, toPlay = Some tp0, keys = {}\<rparr>"
      by (auto simp: constructor_def split: option.splits)
    from initNumbers_inv[OF t] obtain tp where tp: "tp0 = 0 # tp" "length tp = nat situational"
      "distinct tp" "set tp \<inter> numbers = {}"
      by blast
    have "distinct (concat news @ tp)" using news(4,5) tp(3,4) by auto
    with news tp obj False show ?thesis by auto
  qed
qed

subsection \<open>Construction returns on a random source without repetition\<close>

text \<open>
  When no number comes up twice, every draw is accepted at once, so every loop of the
  constructor runs to its end, whatever the arguments.
\<close>

lemma fresh_source_step:
  assumes "inj ((!!) rnd)" and "numbers \<inter> sset rnd = {}"
  shows "shd rnd \<notin> numbers" and "inj ((!!) (stl rnd))"
    and "insert (shd rnd) numbers \<inter> sset (stl rnd) = {}"
proof -
  have "shd rnd \<in> sset rnd" by (simp add: shd_sset)
  with assms(2) show "shd rnd \<notin> numbers" by blast
  show "inj ((!!) (stl rnd))"
  proof (rule injI)
    fix i j assume "stl rnd !! i = stl rnd !! j"
    then have "rnd !! Suc i = rnd !! Suc j" by simp
    with assms(1) have "Suc i = Suc j" by (rule injD)
    then show "i = j" by simp
  qed
  have "shd rnd \<notin> sset (stl rnd)"
  proof
    assume "shd rnd \<in> sset (stl rnd)"
    then obtain n where "stl rnd !! n = shd rnd" by (auto simp: sset_range)
    then have "rnd !! Suc n = rnd !! 0" by simp
    with assms(1) have "Suc n = 0" by (rule injD)
    then show False by simp
  qed
  moreover have "sset (stl rnd) \<subseteq> sset rnd" by (auto dest: stl_sset)
  ultimately show "insert (shd rnd) numbers \<inter> sset (stl rnd) = {}" using assms(2) by blast
qed

lemma initLoop_returns:
  "inj ((!!) rnd) \<Longrightarrow> numbers \<inter> sset rnd = {} \<Longrightarrow>
   \<exists>row numbers' rnd'. initLoop n rnd numbers acc = Some (row, numbers', rnd') \<and>
      inj ((!!) rnd') \<and> numbers' \<inter> sset rnd' = {}"
proof (induction n arbitrary: rnd numbers acc)
  case 0
  then show ?case by simp
next
  case (Suc n)
  note step = fresh_source_step[OF Suc.prems]
  from step(1) have "draw_unique rnd numbers = Some (shd rnd, stl rnd)"
    by (subst draw_unique.simps) simp
  with Suc.IH[OF step(2,3), of "acc @ [shd rnd]"] show ?case by simp
qed

lemma vertexLoop_returns:
  "inj ((!!) rnd) \<Longrightarrow> numbers \<inter> sset rnd = {} \<Longrightarrow>
   \<exists>rows' numbers' rnd'. vertexLoop n rnd numbers rows values = Some (rows', numbers', rnd') \<and>
      inj ((!!) rnd') \<and> numbers' \<inter> sset rnd' = {}"
proof (induction n arbitrary: rnd numbers rows)
  case 0
  then show ?case by simp
next
  case (Suc n)
  from initLoop_returns[OF Suc.prems, of "nat values" "[0]"] obtain row numbers1 rnd1 where
    "initNumbers rnd numbers values = Some (row, numbers1, rnd1)"
    "inj ((!!) rnd1)" "numbers1 \<inter> sset rnd1 = {}"
    by (auto simp: initNumbers_def)
  with Suc.IH[of rnd1 numbers1 "rows @ [row]"] show ?case by simp
qed

lemma constructor_returns:
  assumes "inj ((!!) rnd)"
  shows "\<exists>this. constructor rnd size' values situational = Some this"
proof -
  have "{} \<inter> sset rnd = {}" by simp
  from vertexLoop_returns[OF assms this, of "nat size'" "[]" "values"]
  obtain rows numbers rnd1 where
    v: "vertexLoop (nat size') rnd {} [] values = Some (rows, numbers, rnd1)"
    and f: "inj ((!!) rnd1)" "numbers \<inter> sset rnd1 = {}"
    by blast
  from initLoop_returns[OF f, of "nat situational" "[0]"] obtain tp numbers2 rnd2 where
    "initNumbers rnd1 numbers situational = Some (tp, numbers2, rnd2)"
    by (auto simp: initNumbers_def)
  with v show ?thesis by (simp add: constructor_def)
qed

subsection \<open>Evaluation on a given random source\<close>

lemma draw_unique_hit: "x \<notin> numbers \<Longrightarrow> draw_unique (x ## s) numbers = Some (x, s)"
  by (subst draw_unique.simps) simp

lemma draw_unique_miss: "x \<in> numbers \<Longrightarrow> draw_unique (x ## s) numbers = draw_unique s numbers"
  by (subst draw_unique.simps) simp

lemmas construct_eval =
  constructor_def initNumbers_def draw_unique_hit draw_unique_miss eval_nat_numeral

lemmas hash_eval = hash_def js_index_def js_xor_def ToInt32_def

lemma initNumbers_nonpos:
  "quantity \<le> 0 \<Longrightarrow> initNumbers rnd numbers quantity = Some ([0], numbers, rnd)"
  by (simp add: initNumbers_def)

lemma vertexLoop_nonpos:
  "values \<le> 0 \<Longrightarrow>
   vertexLoop n rnd numbers rows values = Some (rows @ replicate n [0], numbers, rnd)"
  by (induction n arbitrary: rows) (simp_all add: initNumbers_nonpos replicate_append_same)

lemmas hash_big_eval = hash_big_def js_index_def js_xor_val_def js_xor_def ToInt32_def

lemma js_xor_zero: "js_xor 0 (Some 0) = 0"
  by (simp add: js_xor_def ToInt32_def)

lemma hash_keys_update: "hash (this\<lparr>keys := k\<rparr>) state to_play = hash this state to_play"
  by (simp add: hash_def split: list.splits sum.splits)

subsection \<open>The all-zero state\<close>

text \<open>
  On a constructed table with at least one vertex, the state of all zeros hashes to 0
  for player 0.
\<close>

lemma reduce_from_zeros:
  "i + n \<le> length news \<Longrightarrow> reduce_from (map ((#) 0) news) 0 i (replicate n 0) = Inr 0"
proof (induction n arbitrary: i)
  case 0
  then show ?case by simp
next
  case (Suc n)
  then have "i < length news" "Suc i + n \<le> length news" by simp_all
  with Suc.IH[of "Suc i"] show ?case by (simp add: js_index_def js_xor_zero)
qed

lemma hash_zero_state:
  assumes "constructor rnd size' values situational = Some this" and "0 < size'"
  shows "hash this (replicate (nat size') 0) 0 = Inr 0"
proof -
  from constructor_inv[OF assms(1)] obtain news tp where inv:
    "nums this = map ((#) 0) news" "length news = nat size'"
    "toPlay this = (if situational = 0 then None else Some (0 # tp))"
    by blast
  from assms(2) obtain n where n: "nat size' = Suc n" by (cases "nat size'") simp_all
  have "reduce_from (nums this) 0 1 (replicate n 0) = Inr 0"
    using reduce_from_zeros[of 1 n news] inv(1,2) n by simp
  then show ?thesis by (simp add: hash_def n inv(3) js_index_def js_xor_zero)
qed

section \<open>The claims\<close>

text \<open>
  Claim C1: hash(state, to_play) is the XOR over all vertices \<open>v\<close> of
  \<open>KeyTable[v][state[v]]\<close>, further XORed with \<open>ToPlayTable[to_play]\<close> in situational
  mode. The code does not compute this: \<^verbatim>\<open>reduce\<close> has no initial value, so the fold
  starts from the value \<open>state[0]\<close> itself and the key of vertex 0 is never read. On the
  table \<open>[[0, 7]]\<close> the state \<open>[1]\<close> hashes to 1, not to the key 7; on
  \<open>[[0, 7], [0, 9]]\<close> the state \<open>[1, 1]\<close> hashes to \<open>1 ^ 9 = 8\<close>, not to
  \<open>7 ^ 9 = 14\<close>.
\<close>

theorem hash_starts_from_first_value:
  "constructor (7 ## rnd) 1 1 0 = Some \<lparr>nums = [[0, 7]], toPlay = None, keys = {}\<rparr> \<and>
   hash \<lparr>nums = [[0, 7]], toPlay = None, keys = {}\<rparr> [1] 0 = Inr 1 \<and>
   constructor (7 ## 9 ## rnd) 2 1 0 = Some \<lparr>nums = [[0, 7], [0, 9]], toPlay = None, keys = {}\<rparr> \<and>
   hash \<lparr>nums = [[0, 7], [0, 9]], toPlay = None, keys = {}\<rparr> [1, 1] 0 = Inr 8 \<and>
   js_xor (js_xor 0 (Some 7)) (Some 9) = 14"
  by (simp add: construct_eval hash_eval)

text \<open>
  Claim C2: two states that differ at exactly one vertex never hash alike. The code
  breaks this in two ways. The keys 1 and 4294967297 are distinct numbers with the same
  low 32 bits, and \<^verbatim>\<open>^\<close> reads only these: the states \<open>[0, 1]\<close> and \<open>[0, 2]\<close>
  both hash to 1. And a draw of 0 is accepted as a key: on \<open>[[0, 3], [0, 0]]\<close> the
  states \<open>[0, 0]\<close> and \<open>[0, 1]\<close> both hash to 0.
\<close>

theorem single_vertex_change_unseen:
  "constructor (5 ## 6 ## 1 ## 4294967297 ## rnd) 2 2 0 =
     Some \<lparr>nums = [[0, 5, 6], [0, 1, 4294967297]], toPlay = None, keys = {}\<rparr> \<and>
   hash \<lparr>nums = [[0, 5, 6], [0, 1, 4294967297]], toPlay = None, keys = {}\<rparr> [0, 1] 0 = Inr 1 \<and>
   hash \<lparr>nums = [[0, 5, 6], [0, 1, 4294967297]], toPlay = None, keys = {}\<rparr> [0, 2] 0 = Inr 1 \<and>
   constructor (3 ## 0 ## rnd) 2 1 0 = Some \<lparr>nums = [[0, 3], [0, 0]], toPlay = None, keys = {}\<rparr> \<and>
   hash \<lparr>nums = [[0, 3], [0, 0]], toPlay = None, keys = {}\<rparr> [0, 0] 0 = Inr 0 \<and>
   hash \<lparr>nums = [[0, 3], [0, 0]], toPlay = None, keys = {}\<rparr> [0, 1] 0 = Inr 0"
  by (simp add: construct_eval hash_eval)

text \<open>
  Claim C3: after \<open>add\<close> has returned the fingerprint \<open>h\<close> of a state, a second \<open>add\<close>
  of the same state and player throws and leaves the object as it was; \<open>remove\<close> of
  \<open>h\<close> then returns true (and gives back the object from before the first \<open>add\<close>), and
  \<open>add\<close> of the state succeeds again with the same fingerprint.
\<close>

theorem add_twice_then_remove:
  assumes "add this state to_play = (Inr h, this1)"
  shows "add this1 state to_play = (Inl (Error h), this1) \<and>
         remove_key this1 h = (True, this) \<and>
         add (snd (remove_key this1 h)) state to_play = (Inr h, this1)"
proof -
  from assms have h: "hash this state to_play = Inr h" and fresh: "h \<notin> keys this"
    and this1: "this1 = this\<lparr>keys := insert h (keys this)\<rparr>"
    by (auto simp: add_def split: sum.splits if_splits)
  have same: "hash this1 state to_play = Inr h" using h by (simp add: this1 hash_keys_update)
  have again: "add this1 state to_play = (Inl (Error h), this1)"
    using same by (simp add: add_def this1)
  have undo: "remove_key this1 h = (True, this)"
    using fresh by (simp add: remove_key_def this1)
  from again undo assms show ?thesis by simp
qed

theorem add_twice_then_remove_witness:
  "add \<lparr>nums = [[0, 5, 6], [0, 7, 8]], toPlay = None, keys = {}\<rparr> [0, 1] 0 =
     (Inr 7, \<lparr>nums = [[0, 5, 6], [0, 7, 8]], toPlay = None, keys = {7}\<rparr>) \<and>
   add \<lparr>nums = [[0, 5, 6], [0, 7, 8]], toPlay = None, keys = {7}\<rparr> [0, 1] 0 =
     (Inl (Error 7), \<lparr>nums = [[0, 5, 6], [0, 7, 8]], toPlay = None, keys = {7}\<rparr>) \<and>
   remove_key \<lparr>nums = [[0, 5, 6], [0, 7, 8]], toPlay = None, keys = {7}\<rparr> 7 =
     (True, \<lparr>nums = [[0, 5, 6], [0, 7, 8]], toPlay = None, keys = {}\<rparr>)"
proof -
  have first: "add \<lparr>nums = [[0, 5, 6], [0, 7, 8]], toPlay = None, keys = {}\<rparr> [0, 1] 0 =
     (Inr 7, \<lparr>nums = [[0, 5, 6], [0, 7, 8]], toPlay = None, keys = {7}\<rparr>)"
    by (simp add: add_def hash_eval)
  from add_twice_then_remove[OF first] first show ?thesis by simp
qed

text \<open>
  Claim C4: hash of an all-zero state, the empty state included, is 0 and never fails.
  On the empty state the code throws: \<^verbatim>\<open>reduce\<close> of an empty array with no initial
  value is a TypeError, whatever the table; and the empty state is the one state of the
  right length for a table built with size 0. On a table with at least one vertex the
  all-zero state does hash to 0 (\<open>hash_zero_state\<close> above).
\<close>

theorem hash_empty_state_throws:
  "constructor rnd 0 values 0 = Some \<lparr>nums = [], toPlay = None, keys = {}\<rparr> \<and>
   hash this [] to_play = Inl TypeError"
  by (simp add: constructor_def hash_def)

text \<open>
  Claim C5: in every constructed table the generated keys (all entries after index 0, in
  every vertex row and in the to-play array when there is one) are pairwise distinct, and
  index 0 of every row and of the to-play array holds 0.
\<close>

theorem generated_keys_distinct:
  assumes "constructor rnd size' values situational = Some this"
  shows "distinct (concat (map tl (nums this)) @
                   (case toPlay this of None \<Rightarrow> [] | Some tp \<Rightarrow> tl tp)) \<and>
         (\<forall>row\<in>set (nums this). js_index row 0 = Some 0) \<and>
         (\<forall>tp. toPlay this = Some tp \<longrightarrow> js_index tp 0 = Some 0)"
proof -
  from constructor_inv[OF assms] obtain news tp where inv:
    "nums this = map ((#) 0) news"
    "toPlay this = (if situational = 0 then None else Some (0 # tp))"
    "distinct (concat news @ tp)"
    by blast
  have tls: "map (tl \<circ> (#) 0) news = news" by (simp add: comp_def)
  have "distinct (concat (map tl (nums this)) @
                  (case toPlay this of None \<Rightarrow> [] | Some tp \<Rightarrow> tl tp))"
    using inv by (simp add: tls)
  moreover have "\<forall>row\<in>set (nums this). js_index row 0 = Some 0"
    using inv(1) by (auto simp: js_index_def)
  moreover have "\<forall>tp. toPlay this = Some tp \<longrightarrow> js_index tp 0 = Some 0"
    using inv(2) by (auto simp: js_index_def split: if_splits)
  ultimately show ?thesis by blast
qed

theorem generated_keys_distinct_witness:
  "constructor (1 ## 2 ## 2 ## 1 ## 3 ## 4 ## 4 ## 5 ## 6 ## sconst 0) 2 2 2 =
     Some \<lparr>nums = [[0, 1, 2], [0, 3, 4]], toPlay = Some [0, 5, 6], keys = {}\<rparr> \<and>
   distinct (concat (map tl [[0, 1, 2], [0, 3, 4]]) @ tl [0, 5, 6 :: int]) \<and>
   js_index [0, 1, 2 :: int] 0 = Some 0 \<and> js_index [0, 3, 4 :: int] 0 = Some 0 \<and>
   js_index [0, 5, 6 :: int] 0 = Some 0"
proof -
  have built: "constructor (1 ## 2 ## 2 ## 1 ## 3 ## 4 ## 4 ## 5 ## 6 ## sconst 0) 2 2 2 =
     Some \<lparr>nums = [[0, 1, 2], [0, 3, 4]], toPlay = Some [0, 5, 6], keys = {}\<rparr>"
    by (simp add: construct_eval)
  from generated_keys_distinct[OF built] built show ?thesis by simp
qed

text \<open>
  Claim C6: the fold combines keys at their full width (at least 53 bits), without
  truncation and without sign effects, so keys that differ only above bit 31 give
  different fingerprints. The code's \<^verbatim>\<open>^\<close> works on 32 bits: the keys 1 and
  4294967297 (\<open>2 ^ 32 + 1\<close>) differ in bit 32 alone and give the same fingerprint 1, and
  the key 2147483648 (\<open>2 ^ 31\<close>) gives the negative fingerprint \<open>- 2147483648\<close>. In
  the BigInt variant the fold starts from the Number \<open>state[0]\<close>, and throws as soon as
  it meets a BigInt key.
\<close>

theorem xor_keeps_32_bits:
  "constructor (5 ## 6 ## 7 ## 1 ## 4294967297 ## 2147483648 ## rnd) 2 3 0 =
     Some \<lparr>nums = [[0, 5, 6, 7], [0, 1, 4294967297, 2147483648]], toPlay = None, keys = {}\<rparr> \<and>
   hash \<lparr>nums = [[0, 5, 6, 7], [0, 1, 4294967297, 2147483648]], toPlay = None, keys = {}\<rparr>
     [0, 1] 0 = Inr 1 \<and>
   hash \<lparr>nums = [[0, 5, 6, 7], [0, 1, 4294967297, 2147483648]], toPlay = None, keys = {}\<rparr>
     [0, 2] 0 = Inr 1 \<and>
   hash \<lparr>nums = [[0, 5, 6, 7], [0, 1, 4294967297, 2147483648]], toPlay = None, keys = {}\<rparr>
     [0, 3] 0 = Inr (- 2147483648) \<and>
   hash_big \<lparr>nums_big = [[Number 0, BigInt 5], [Number 0, BigInt 1, BigInt 4294967297]],
             toPlay_big = None, keys_big = {}\<rparr> [0, 1] 0 = Inl TypeError \<and>
   hash_big \<lparr>nums_big = [[Number 0, BigInt 5], [Number 0, BigInt 1, BigInt 4294967297]],
             toPlay_big = None, keys_big = {}\<rparr> [0, 2] 0 = Inl TypeError"
  by (simp add: construct_eval hash_eval hash_big_eval)

text \<open>
  Claim C7: without a to-play array the player is ignored, and with one the fingerprints
  for players 1 and 0 always differ. The first half holds (\<open>hash_ignores_player\<close>
  below). The second fails: the to-play key of player 1 can be the draw 0, or a draw
  whose low 32 bits are 0 such as 4294967296, and then both players give the same
  fingerprint.
\<close>

theorem to_play_key_without_effect:
  "constructor (5 ## 0 ## rnd) 1 1 1 =
     Some \<lparr>nums = [[0, 5]], toPlay = Some [0, 0], keys = {}\<rparr> \<and>
   hash \<lparr>nums = [[0, 5]], toPlay = Some [0, 0], keys = {}\<rparr> [1] 1 = Inr 1 \<and>
   hash \<lparr>nums = [[0, 5]], toPlay = Some [0, 0], keys = {}\<rparr> [1] 0 = Inr 1 \<and>
   constructor (5 ## 4294967296 ## rnd) 1 1 1 =
     Some \<lparr>nums = [[0, 5]], toPlay = Some [0, 4294967296], keys = {}\<rparr> \<and>
   hash \<lparr>nums = [[0, 5]], toPlay = Some [0, 4294967296], keys = {}\<rparr> [1] 1 = Inr 1 \<and>
   hash \<lparr>nums = [[0, 5]], toPlay = Some [0, 4294967296], keys = {}\<rparr> [1] 0 = Inr 1"
  by (simp add: construct_eval hash_eval)

lemma hash_ignores_player:
  "constructor rnd size' values 0 = Some this \<Longrightarrow> hash this state p = hash this state 0"
  by (auto simp: constructor_def hash_def split: option.splits list.splits sum.splits)

text \<open>
  Claim C8: construction with size at most 0, values below 1 or a negative situational
  fails with a ConfigurationError. The constructor checks none of its arguments and has
  no statement that throws. As amended: with size at most 0 or values below 1, and
  situational at most 0, construction returns; the table has one row \<open>[0]\<close> per vertex
  (none when size is at most 0), no to-play array when situational is 0 and the to-play
  array \<open>[0]\<close> when it is negative, and an empty set of keys.
\<close>

theorem constructor_checks_nothing:
  assumes "size' \<le> 0 \<or> values < 1" and "situational \<le> 0"
  shows "constructor rnd size' values situational =
           Some \<lparr>nums = replicate (nat size') [0],
                 toPlay = (if situational = 0 then None else Some [0]), keys = {}\<rparr>"
proof -
  have rows: "vertexLoop (nat size') rnd {} [] values = Some (replicate (nat size') [0], {}, rnd)"
  proof (cases "size' \<le> 0")
    case True
    then show ?thesis by simp
  next
    case False
    with assms(1) have "values \<le> 0" by simp
    from vertexLoop_nonpos[OF this] show ?thesis by simp
  qed
  show ?thesis using rows assms(2) by (simp add: constructor_def initNumbers_nonpos)
qed

theorem constructor_checks_nothing_witness:
  "((2::int) \<le> 0 \<or> (0::int) < 1) \<and> (- 1 :: int) \<le> 0 \<and>
   constructor (sconst 0) 2 0 (- 1) = Some \<lparr>nums = [[0], [0]], toPlay = Some [0], keys = {}\<rparr>"
  using constructor_checks_nothing[of 2 0 "- 1" "sconst 0"] by (simp add: eval_nat_numeral)

theorem invalid_configuration_constructs:
  "constructor (sconst 0) 0 2 0 = Some \<lparr>nums = [], toPlay = None, keys = {}\<rparr> \<and>
   constructor (sconst 0) (- 3) 2 0 = Some \<lparr>nums = [], toPlay = None, keys = {}\<rparr> \<and>
   constructor (sconst 0) 2 0 0 = Some \<lparr>nums = [[0], [0]], toPlay = None, keys = {}\<rparr> \<and>
   constructor (sconst 0) 2 0 (- 1) = Some \<lparr>nums = [[0], [0]], toPlay = Some [0], keys = {}\<rparr>"
  by (simp add: construct_eval)

text \<open>
  Claim C9: a draw retries a bounded number of times and construction then fails with
  KeySpaceExhaustion. The loop of \<open>initNumbers\<close> has no counter and no failure exit. As
  amended: a draw retries until a number outside the exclusion set comes up, however
  many collisions come first (after \<open>n\<close> collisions, for any \<open>n\<close>, it returns draw
  number \<open>n\<close>), and when every draw collides it never returns.
\<close>

theorem draw_unique_unbounded:
  "((\<forall>i<n. rnd !! i \<in> numbers) \<and> rnd !! n \<notin> numbers \<longrightarrow>
      draw_unique rnd numbers = Some (rnd !! n, sdrop (Suc n) rnd)) \<and>
   ((\<forall>i. rnd !! i \<in> numbers) \<longrightarrow> draw_unique rnd numbers = None)"
  using draw_unique_after[of n rnd numbers] draw_unique_never[of rnd numbers] by blast

theorem draw_unique_unbounded_witness:
  "draw_unique (7 ## 7 ## 7 ## 9 ## sconst 7) {7} = Some (9, sconst 7) \<and>
   draw_unique (sconst 7) {7} = None"
proof -
  have a: "\<forall>i<3. (7 ## 7 ## 7 ## 9 ## sconst 7) !! i \<in> {7::int}"
    by (simp add: less_Suc_eq eval_nat_numeral)
  have b: "(7 ## 7 ## 7 ## 9 ## sconst 7) !! 3 \<notin> {7::int}" by (simp add: eval_nat_numeral)
  have c: "\<forall>i. sconst 7 !! i \<in> {7::int}" by simp
  from draw_unique_unbounded[of 3 "7 ## 7 ## 7 ## 9 ## sconst 7" "{7}"] a b
  have "draw_unique (7 ## 7 ## 7 ## 9 ## sconst 7) {7} = Some (9, sconst 7)"
    by (simp add: eval_nat_numeral)
  moreover from draw_unique_unbounded[of 0 "sconst 7" "{7}"] c
  have "draw_unique (sconst 7) {7} = None" by blast
  ultimately show ?thesis by simp
qed

text \<open>
  With a random source that gives 7 forever, the second key of the first row is never
  found: construction neither returns nor throws.
\<close>

theorem construction_retries_forever:
  "constructor (sconst 7) 1 2 0 = None"
proof -
  have first: "draw_unique (sconst 7) {} = Some (7, sconst 7)"
    by (subst draw_unique.simps) simp
  have second: "draw_unique (sconst 7) {7} = None" by (rule draw_unique_never) simp
  show ?thesis by (simp add: constructor_def initNumbers_def eval_nat_numeral first second)
qed

text \<open>
  Claim C10: the exclusion set never contains the identity key 0, because the literal 0
  at index 0 of a row is not added to it, so a generated key can equal 0. As stated this
  fails: once 0 has been drawn it is in the set like any other key. As amended: the
  literal 0 that starts each row is never added to the exclusion set; the set starts
  empty and gains exactly the generated keys, so it holds 0 only once 0 has been drawn
  as a key. A draw of 0 is accepted as a generated key while 0 is not yet in the set (a
  first draw of 0 gives the row \<open>[0, 0]\<close>) and refused afterwards. Uniqueness is
  enforced among generated keys, which are pairwise distinct and outside the set they
  were drawn against, and never against the identity key.
\<close>

theorem exclusion_set_is_drawn_keys:
  "(initNumbers rnd numbers quantity = Some (row, numbers', rnd') \<longrightarrow>
      js_index row 0 = Some 0 \<and> length (tl row) = nat quantity \<and> distinct (tl row) \<and>
      set (tl row) \<inter> numbers = {} \<and> numbers' = numbers \<union> set (tl row)) \<and>
   (vertexLoop n rnd1 {} [] values = Some (rows, numbers1, rnd1') \<longrightarrow>
      numbers1 = set (concat (map tl rows))) \<and>
   draw_unique (0 ## rnd0) numbers0 =
     (if 0 \<in> numbers0 then draw_unique rnd0 numbers0 else Some (0, rnd0)) \<and>
   constructor (0 ## rnd0) 1 1 0 = Some \<lparr>nums = [[0, 0]], toPlay = None, keys = {}\<rparr>"
proof -
  have a: "js_index row 0 = Some 0 \<and> length (tl row) = nat quantity \<and> distinct (tl row) \<and>
      set (tl row) \<inter> numbers = {} \<and> numbers' = numbers \<union> set (tl row)"
    if "initNumbers rnd numbers quantity = Some (row, numbers', rnd')"
    using initNumbers_inv[OF that] by (auto simp: js_index_def)
  have b: "numbers1 = set (concat (map tl rows))"
    if "vertexLoop n rnd1 {} [] values = Some (rows, numbers1, rnd1')"
  proof -
    from vertexLoop_inv[OF that] obtain news where
      "rows = map ((#) 0) news" "numbers1 = set (concat news)"
      by auto
    then show ?thesis by (simp add: comp_def)
  qed
  have c: "draw_unique (0 ## rnd0) numbers0 =
     (if 0 \<in> numbers0 then draw_unique rnd0 numbers0 else Some (0, rnd0))"
    by (subst draw_unique.simps) simp
  have d: "constructor (0 ## rnd0) 1 1 0 = Some \<lparr>nums = [[0, 0]], toPlay = None, keys = {}\<rparr>"
    by (simp add: construct_eval)
  from a b c d show ?thesis by blast
qed

theorem exclusion_set_is_drawn_keys_witness:
  "initNumbers (9 ## 4 ## 4 ## 0 ## 0 ## 5 ## sconst 1) {9} 3 =
     Some ([0, 4, 0, 5], {9, 4, 0, 5}, sconst 1) \<and>
   js_index [0, 4, 0, 5 :: int] 0 = Some 0 \<and> length (tl [0, 4, 0, 5 :: int]) = nat 3 \<and>
   distinct (tl [0, 4, 0, 5 :: int]) \<and> set (tl [0, 4, 0, 5 :: int]) \<inter> {9} = {} \<and>
   {9, 4, 0, 5 :: int} = {9} \<union> set (tl [0, 4, 0, 5]) \<and>
   vertexLoop 2 (0 ## 0 ## 3 ## sconst 1) {} [] 1 = Some ([[0, 0], [0, 3]], {0, 3}, sconst 1) \<and>
   {0, 3 :: int} = set (concat (map tl [[0, 0], [0, 3]])) \<and>
   draw_unique (0 ## 3 ## sconst 1) {0} = Some (3, sconst 1) \<and>
   constructor (0 ## 3 ## sconst 1) 1 1 0 = Some \<lparr>nums = [[0, 0]], toPlay = None, keys = {}\<rparr>"
proof -
  have drawn: "initNumbers (9 ## 4 ## 4 ## 0 ## 0 ## 5 ## sconst 1) {9} 3 =
     Some ([0, 4, 0, 5], {9, 4, 0, 5}, sconst 1)"
    by (simp add: construct_eval insert_commute)
  have rows: "vertexLoop 2 (0 ## 0 ## 3 ## sconst 1) {} [] 1 = Some ([[0, 0], [0, 3]], {0, 3}, sconst 1)"
    by (simp add: construct_eval insert_commute)
  have later: "draw_unique (3 ## sconst 1) {0} = Some (3, sconst 1)"
    by (simp add: draw_unique_hit)
  from exclusion_set_is_drawn_keys[of "9 ## 4 ## 4 ## 0 ## 0 ## 5 ## sconst 1" "{9}" 3
      "[0, 4, 0, 5]" "{9, 4, 0, 5}" "sconst 1" 2 "0 ## 0 ## 3 ## sconst 1" 1
      "[[0, 0], [0, 3]]" "{0, 3}" "sconst 1" "3 ## sconst 1" "{0}"]
    drawn rows later
  show ?thesis by simp
qed

text \<open>
  With the draws 0, 0, 4 the first 0 is accepted, the second is refused, and the
  exclusion set ends as \<open>{0, 4}\<close>: it contains 0.
\<close>

theorem exclusion_set_holds_drawn_zero:
  "initNumbers (0 ## 0 ## 4 ## sconst 1) {} 2 = Some ([0, 0, 4], {0, 4}, sconst 1) \<and>
   (0 :: int) \<in> {0, 4}"
  by (simp add: construct_eval insert_commute)

end
